theory Spec2Isabelle
  imports Complex_Main
begin

section \<open>Values, arrays and errors\<close>

text \<open>
  The module \<open>rm_utils.py\<close> works on one-dimensional numpy arrays of floating-point
  numbers. An array is a list. An entry is either a number or the not-a-number value that
  numpy produces for an undefined operation (the square root of a negative number, the
  mean of an empty array). Numbers are exact reals, and \<open>astype(np.float32)\<close>,
  which only changes the precision, leaves a value as it is. Rounding to a floating-point
  format is added for \<open>rmse\<close>, where a result that underflows to zero decides a
  property; overflow to infinity is not part of this development.
  Comparisons of floating-point numbers are exact, so they are the comparisons of the reals;
  every comparison with not-a-number is false.
\<close>

datatype fval = Num real | NaN

text \<open>The exceptions that the functions of the module can raise.\<close>

datatype np_error = ValueError | IndexError | ZeroDivisionError | TypeError

text \<open>\<open>x <= c\<close> and \<open>x >= c\<close> for an entry \<open>x\<close> and a Python float \<open>c\<close>.\<close>

fun fle :: "fval \<Rightarrow> real \<Rightarrow> bool" where
  "fle (Num a) c = (a \<le> c)"
| "fle NaN c = False"

fun fge :: "fval \<Rightarrow> real \<Rightarrow> bool" where
  "fge (Num a) c = (a \<ge> c)"
| "fge NaN c = False"

section \<open>get_bulk_edge_values\<close>

text \<open>
  \<open>a[msk]\<close> for a one-dimensional array \<open>a\<close> and a boolean array \<open>msk\<close>: numpy
  keeps, in order, the entries of \<open>a\<close> whose mask entry is true. It compares the two
  lengths only for a mask that is not empty, and raises IndexError ("boolean index did not
  match indexed array along axis 0") when they differ; an empty mask selects nothing from
  an array of any length.
\<close>

definition bool_index :: "'a list \<Rightarrow> bool list \<Rightarrow> np_error + 'a list" where
  "bool_index a msk =
     (if msk = [] \<or> length msk = length a then Inr (map fst (filter snd (zip a msk)))
      else Inl IndexError)"

text \<open>
  Lines 126 to 132 of the source. \<open>bins[:-1]\<close> drops the last entry and is empty for an
  empty array, as \<open>butlast\<close> is; the product of two boolean arrays of one length is
  their elementwise conjunction, and \<open>~\<close> is the elementwise negation.
\<close>

definition bulk_mask :: "fval list \<Rightarrow> bool list" where
  "bulk_mask bins =
     (let right = map (\<lambda>x. fle x 2) (butlast bins);
          left = map (\<lambda>x. fge x (- 2)) (butlast bins)
      in map2 (\<and>) right left)"

definition tails_mask :: "fval list \<Rightarrow> bool list" where
  "tails_mask bins = map Not (bulk_mask bins)"

text \<open>
  Lines 136 to 142: the four indexings in the order of the source; the first that raises
  ends the call. The counts may be of any type, they are only selected.
\<close>

definition get_bulk_edge_values ::
  "'a list \<Rightarrow> fval list \<Rightarrow> np_error + ('a list \<times> fval list \<times> 'a list \<times> fval list)" where
  "get_bulk_edge_values counts bins =
     (case bool_index counts (bulk_mask bins) of
        Inl e \<Rightarrow> Inl e
      | Inr bulk_rho \<Rightarrow>
     (case bool_index counts (tails_mask bins) of
        Inl e \<Rightarrow> Inl e
      | Inr tails_rho \<Rightarrow>
     (case bool_index (butlast bins) (bulk_mask bins) of
        Inl e \<Rightarrow> Inl e
      | Inr bulk_lambdas \<Rightarrow>
     (case bool_index (butlast bins) (tails_mask bins) of
        Inl e \<Rightarrow> Inl e
      | Inr tails_lambdas \<Rightarrow> Inr (bulk_rho, bulk_lambdas, tails_rho, tails_lambdas)))))"

section \<open>rmse\<close>

text \<open>
  Elementwise arithmetic on entries. An operation on not-a-number gives not-a-number, and
  \<open>np.sqrt\<close> of a negative number gives not-a-number (with a warning, not an exception).
\<close>

fun fadd :: "fval \<Rightarrow> fval \<Rightarrow> fval" where
  "fadd (Num a) (Num b) = Num (a + b)"
| "fadd _ _ = NaN"

fun fsub :: "fval \<Rightarrow> fval \<Rightarrow> fval" where
  "fsub (Num a) (Num b) = Num (a - b)"
| "fsub _ _ = NaN"

fun fsquare :: "fval \<Rightarrow> fval" where
  "fsquare (Num a) = Num (a\<^sup>2)"
| "fsquare NaN = NaN"

fun fsqrt :: "fval \<Rightarrow> fval" where
  "fsqrt (Num a) = (if a < 0 then NaN else Num (sqrt a))"
| "fsqrt NaN = NaN"

text \<open>Division of an entry by a scalar that is not zero.\<close>

fun fdiv :: "fval \<Rightarrow> real \<Rightarrow> fval" where
  "fdiv (Num a) d = Num (a / d)"
| "fdiv NaN d = NaN"

text \<open>
  \<open>numerical - expected\<close> on one-dimensional arrays, with numpy's broadcasting: arrays of
  one length are subtracted entry by entry, an array of length 1 is stretched to the length
  of the other one (also to length 0), and any other pair of lengths raises ValueError
  ("operands could not be broadcast together").
\<close>

definition np_subtract :: "fval list \<Rightarrow> fval list \<Rightarrow> np_error + fval list" where
  "np_subtract a b =
     (if length a = length b then Inr (map2 fsub a b)
      else if length a = 1 then Inr (map (\<lambda>y. fsub (hd a) y) b)
      else if length b = 1 then Inr (map (\<lambda>x. fsub x (hd b)) a)
      else Inl ValueError)"

definition np_square :: "fval list \<Rightarrow> fval list" where
  "np_square a = map fsquare a"

fun np_sum :: "fval list \<Rightarrow> fval" where
  "np_sum [] = Num 0"
| "np_sum (x # xs) = fadd x (np_sum xs)"

text \<open>
  \<open>a.mean()\<close>: the sum divided by the number of entries. On an empty array numpy divides
  zero by zero and returns not-a-number ("Mean of empty slice" is a warning).
\<close>

definition np_mean :: "fval list \<Rightarrow> fval" where
  "np_mean a = (if a = [] then NaN else fdiv (np_sum a) (real (length a)))"

text \<open>Lines 105 to 107 of the source.\<close>

definition rmse :: "fval list \<Rightarrow> fval list \<Rightarrow> np_error + fval" where
  "rmse numerical expected =
     (case np_subtract numerical expected of
        Inl e \<Rightarrow> Inl e
      | Inr d \<Rightarrow> (let err = np_mean (np_square d) in Inr (fsqrt err)))"

subsection \<open>The same lines in floating-point arithmetic\<close>



fun fround :: "(real \<Rightarrow> real) \<Rightarrow> fval \<Rightarrow> fval" where
  "fround rnd (Num a) = Num (rnd a)"
| "fround rnd NaN = NaN"

text \<open>
  Lines 105 to 107 with every operation rounded by \<open>rnd\<close>: the subtraction, the square,
  each addition of the sum, the division by the number of entries and the square root.
\<close>

fun np_sum_rounded :: "(real \<Rightarrow> real) \<Rightarrow> fval list \<Rightarrow> fval" where
  "np_sum_rounded rnd [] = Num 0"
| "np_sum_rounded rnd (x # xs) = fround rnd (fadd x (np_sum_rounded rnd xs))"

definition np_mean_rounded :: "(real \<Rightarrow> real) \<Rightarrow> fval list \<Rightarrow> fval" where
  "np_mean_rounded rnd a =
     (if a = [] then NaN else fround rnd (fdiv (np_sum_rounded rnd a) (real (length a))))"

definition rmse_rounded :: "(real \<Rightarrow> real) \<Rightarrow> fval list \<Rightarrow> fval list \<Rightarrow> np_error + fval" where
  "rmse_rounded rnd numerical expected =
     (case np_subtract numerical expected of
        Inl e \<Rightarrow> Inl e
      | Inr d \<Rightarrow>
          (let err = np_mean_rounded rnd (map (fround rnd) (np_square (map (fround rnd) d)))
           in Inr (fround rnd (fsqrt err))))"

section \<open>wigner\<close>

text \<open>Lines 87 to 89 of the source: every operation is elementwise.\<close>

definition astype_float32 :: "'a list \<Rightarrow> 'a list" where
  "astype_float32 a = a"

definition wigner :: "fval list \<Rightarrow> fval list" where
  "wigner l =
     (let rho = map (\<lambda>x. fdiv (fsqrt (fsub (Num 4) (fsquare x))) (2 * pi)) l
      in astype_float32 rho)"

text \<open>\<open>-l\<close>, entry by entry.\<close>

fun fneg :: "fval \<Rightarrow> fval" where
  "fneg (Num a) = Num (- a)"
| "fneg NaN = NaN"

definition np_negative :: "fval list \<Rightarrow> fval list" where
  "np_negative l = map fneg l"

section \<open>rm_sampling\<close>

text \<open>
  The generator is an argument of \<open>rm_sampling\<close>. It is a state \<open>g\<close> together with a
  function \<open>gauss\<close> that returns one standard normal deviate and the next state.
  \<open>rng.normal(scale=sigma, size=(r, c))\<close> fills an array of \<open>r\<close> rows and \<open>c\<close> columns,
  row by row, with \<open>sigma\<close> times a deviate, and leaves the generator advanced. A matrix
  is the list of its rows. Its entries are finite numbers, so they are reals.
\<close>

fun draw_row :: "('g \<Rightarrow> real \<times> 'g) \<Rightarrow> real \<Rightarrow> nat \<Rightarrow> 'g \<Rightarrow> real list \<times> 'g" where
  "draw_row gauss scale 0 g = ([], g)"
| "draw_row gauss scale (Suc c) g =
     (let (z, g1) = gauss g;
          (zs, g2) = draw_row gauss scale c g1
      in (scale * z # zs, g2))"

fun rng_normal ::
  "('g \<Rightarrow> real \<times> 'g) \<Rightarrow> real \<Rightarrow> nat \<Rightarrow> nat \<Rightarrow> 'g \<Rightarrow> real list list \<times> 'g" where
  "rng_normal gauss scale 0 c g = ([], g)"
| "rng_normal gauss scale (Suc r) c g =
     (let (row, g1) = draw_row gauss scale c g;
          (rows, g2) = rng_normal gauss scale r c g1
      in (row # rows, g2))"

text \<open>\<open>(X + X.T) / 2 ** (0.5)\<close>, entry by entry.\<close>

definition symmetrise :: "real list list \<Rightarrow> real list list" where
  "symmetrise X = map2 (map2 (\<lambda>a b. (a + b) / sqrt 2)) X (transpose X)"

text \<open>
  The loop of lines 60 to 66, with the list \<open>lambdas\<close> and the generator as its state.
  \<open>eigvalsh\<close> is LAPACK's symmetric eigenvalue routine, an argument of the model: what
  is known of it is its contract, one eigenvalue per row of a square matrix.
\<close>

fun sampling_loop ::
  "('g \<Rightarrow> real \<times> 'g) \<Rightarrow> (real list list \<Rightarrow> real list) \<Rightarrow> nat \<Rightarrow> nat \<Rightarrow> real \<Rightarrow> 'g \<Rightarrow>
   real list list \<Rightarrow> real list list \<times> 'g" where
  "sampling_loop gauss eigvalsh 0 N sigma g lambdas = (lambdas, g)"
| "sampling_loop gauss eigvalsh (Suc k) N sigma g lambdas =
     (let (X, g1) = rng_normal gauss sigma N N g;
          Xs = symmetrise X
      in sampling_loop gauss eigvalsh k N sigma g1 (lambdas @ [astype_float32 (eigvalsh Xs)]))"

text \<open>
  \<open>np.array(lambdas).flatten()\<close>: rows of one length make a two-dimensional array, whose
  flattening is the rows one after the other; rows of different lengths are refused with
  ValueError (numpy 1.24 and later).
\<close>

definition np_array_flatten :: "real list list \<Rightarrow> np_error + real list" where
  "np_array_flatten rows =
     (if list_all (\<lambda>r. length r = length (hd rows)) rows then Inr (concat rows)
      else Inl ValueError)"

text \<open>
  Lines 57 to 71. \<open>N ** (-0.5)\<close> raises ZeroDivisionError for \<open>N = 0\<close> and is a complex
  number for a negative \<open>N\<close>, which \<open>rng.normal\<close> refuses with TypeError when the loop
  reaches it; \<open>range(n_samples)\<close> is empty for \<open>n_samples \<le> 0\<close>. The result is the
  array together with the advanced generator.
\<close>

definition rm_sampling ::
  "('g \<Rightarrow> real \<times> 'g) \<Rightarrow> (real list list \<Rightarrow> real list) \<Rightarrow> int \<Rightarrow> int \<Rightarrow> 'g \<Rightarrow>
   np_error + (real list \<times> 'g)" where
  "rm_sampling gauss eigvalsh n_samples N g =
     (if N = 0 then Inl ZeroDivisionError
      else if N < 0 \<and> 0 < n_samples then Inl TypeError
      else
        (let sigma = real_of_int N powr (- (1 / 2));
             (lambdas, g1) = sampling_loop gauss eigvalsh (nat n_samples) (nat N) sigma g []
         in case np_array_flatten lambdas of
              Inl e \<Rightarrow> Inl e
            | Inr flat \<Rightarrow> Inr (flat, g1)))"

subsection \<open>The sample as the specification describes it\<close>

text \<open>
  The description of \<open>rm_sampling\<close> in words, to be compared with the loop above. The
  generator after \<open>i\<close> draws, and the deviate it gives then:
\<close>

fun advance :: "('g \<Rightarrow> real \<times> 'g) \<Rightarrow> nat \<Rightarrow> 'g \<Rightarrow> 'g" where
  "advance gauss 0 g = g"
| "advance gauss (Suc i) g = advance gauss i (snd (gauss g))"

definition deviate :: "('g \<Rightarrow> real \<times> 'g) \<Rightarrow> 'g \<Rightarrow> nat \<Rightarrow> real" where
  "deviate gauss g i = fst (gauss (advance gauss i g))"

text \<open>
  A matrix of \<open>N\<close> rows and \<open>N\<close> columns whose entries are \<open>sigma\<close> times the first
  \<open>N * N\<close> deviates of the generator, each deviate used once; the entries are Gaussian
  with mean 0 and standard deviation \<open>sigma\<close>, independent and identically distributed,
  when the deviates of the generator are standard normal and independent.
\<close>

definition gaussian_matrix_spec :: "('g \<Rightarrow> real \<times> 'g) \<Rightarrow> real \<Rightarrow> nat \<Rightarrow> 'g \<Rightarrow> real list list" where
  "gaussian_matrix_spec gauss sigma N g =
     map (\<lambda>i. map (\<lambda>j. sigma * deviate gauss g (i * N + j)) [0..<N]) [0..<N]"

text \<open>\<open>Xs = (X + X\<^sup>T) / sqrt(2)\<close>, by its entries.\<close>

definition symmetrised_spec :: "nat \<Rightarrow> real list list \<Rightarrow> real list list" where
  "symmetrised_spec N X = map (\<lambda>i. map (\<lambda>j. (X ! i ! j + X ! j ! i) / sqrt 2) [0..<N]) [0..<N]"

text \<open>
  The concatenation, over the iterations in order, of the cast eigenvalues of \<open>Xs\<close>,
  with \<open>sigma = N ** (-0.5)\<close>; iteration \<open>k\<close> starts where the \<open>k * N * N\<close> draws of the
  iterations before it have left the generator.
\<close>

definition rm_sampling_spec ::
  "('g \<Rightarrow> real \<times> 'g) \<Rightarrow> (real list list \<Rightarrow> real list) \<Rightarrow> nat \<Rightarrow> nat \<Rightarrow> 'g \<Rightarrow> real list" where
  "rm_sampling_spec gauss eigvalsh n N g =
     concat (map (\<lambda>k. astype_float32 (eigvalsh (symmetrised_spec N
               (gaussian_matrix_spec gauss (real N powr (- (1 / 2))) N (advance gauss (k * (N * N)) g)))))
             [0..<n])"

section \<open>Properties of get_bulk_edge_values\<close>

subsection \<open>The masks and the selection by a mask\<close>

lemma bulk_mask_length: "length (bulk_mask bins) = length bins - 1"
  by (simp add: bulk_mask_def)

lemma tails_mask_length: "length (tails_mask bins) = length bins - 1"
  by (simp add: tails_mask_def bulk_mask_length)

lemma bulk_mask_nth:
  "i < length bins - 1 \<Longrightarrow> bulk_mask bins ! i = (fle (bins ! i) 2 \<and> fge (bins ! i) (- 2))"
  by (simp add: bulk_mask_def nth_butlast)

lemma tails_mask_nth:
  "i < length bins - 1 \<Longrightarrow> tails_mask bins ! i = (\<not> bulk_mask bins ! i)"
  by (simp add: tails_mask_def bulk_mask_length)

lemma select_by_index:
  assumes "length m = length a"
  shows "map fst (filter snd (zip a m)) = map ((!) a) (filter (\<lambda>i. m ! i) [0..<length a])"
proof -
  have "zip a m = map (\<lambda>i. (a ! i, m ! i)) [0..<length a]"
    using assms by (intro nth_equalityI) simp_all
  then show ?thesis
    by (simp add: filter_map o_def)
qed

lemma bool_index_select:
  "length m = length a \<Longrightarrow>
   bool_index a m = Inr (map ((!) a) (filter (\<lambda>i. m ! i) [0..<length a]))"
  by (simp add: bool_index_def select_by_index)

lemma bool_index_mismatch:
  "m \<noteq> [] \<Longrightarrow> length m \<noteq> length a \<Longrightarrow> bool_index a m = Inl IndexError"
  by (simp add: bool_index_def)

lemma bool_index_empty_mask: "bool_index a [] = Inr []"
  by (simp add: bool_index_def)

lemma filter_bulk_cong:
  "length bins = Suc k \<Longrightarrow>
   filter (\<lambda>i. bulk_mask bins ! i) [0..<k] = filter (\<lambda>i. fle (bins ! i) 2 \<and> fge (bins ! i) (- 2)) [0..<k]"
  by (rule filter_cong) (simp_all add: bulk_mask_nth)

lemma filter_tails_cong:
  "length bins = Suc k \<Longrightarrow>
   filter (\<lambda>i. tails_mask bins ! i) [0..<k] = filter (\<lambda>i. \<not> (fle (bins ! i) 2 \<and> fge (bins ! i) (- 2))) [0..<k]"
  by (rule filter_cong) (simp_all add: bulk_mask_nth tails_mask_nth)

lemma map_butlast_nth:
  "length bins = Suc k \<Longrightarrow> set is \<subseteq> {..<k} \<Longrightarrow> map ((!) (butlast bins)) is = map ((!) bins) is"
  by (auto simp: nth_butlast)

lemma get_bulk_edge_values_aligned:
  assumes "length bins = Suc (length counts)"
  shows "get_bulk_edge_values counts bins = Inr
     (map ((!) counts) (filter (\<lambda>i. fle (bins ! i) 2 \<and> fge (bins ! i) (- 2)) [0..<length counts]),
      map ((!) bins) (filter (\<lambda>i. fle (bins ! i) 2 \<and> fge (bins ! i) (- 2)) [0..<length counts]),
      map ((!) counts) (filter (\<lambda>i. \<not> (fle (bins ! i) 2 \<and> fge (bins ! i) (- 2))) [0..<length counts]),
      map ((!) bins) (filter (\<lambda>i. \<not> (fle (bins ! i) 2 \<and> fge (bins ! i) (- 2))) [0..<length counts]))"
proof -
  let ?k = "length counts"
  have lb: "length (bulk_mask bins) = ?k" and lt: "length (tails_mask bins) = ?k"
    using assms by (simp_all add: bulk_mask_length tails_mask_length)
  have lbb: "length (butlast bins) = ?k" using assms by simp
  have s1: "set (filter P [0..<?k]) \<subseteq> {..<?k}" for P by auto
  show ?thesis
    unfolding get_bulk_edge_values_def
    using assms
    by (simp add: bool_index_select lb lt lbb filter_bulk_cong filter_tails_cong
        map_butlast_nth[OF assms s1])
qed

subsection \<open>The partition of a histogram\<close>

text \<open>
  Claim C3. For counts of length \<open>k\<close> and bins of length \<open>k + 1\<close>, the bulk mask at
  position \<open>i\<close> is \<open>bins[i] <= 2.0 and bins[i] >= -2.0\<close> on the left edges, the tails mask
  is its negation, and the call returns, in this order, the bulk counts, the bulk left
  edges, the tail counts and the tail left edges, each in the order of the histogram. For
  counts \<open>[1, 2, 3, 4]\<close> and bins \<open>[-3, -1, 0, 1, 3]\<close> the result is \<open>[2, 3, 4]\<close>,
  \<open>[-1, 0, 1]\<close>, \<open>[1]\<close>, \<open>[-3]\<close>.
\<close>

theorem get_bulk_edge_values_masks:
  "(length bins = Suc (length counts) \<longrightarrow>
      length (bulk_mask bins) = length counts \<and>
      length (tails_mask bins) = length counts \<and>
      (\<forall>i<length counts.
          bulk_mask bins ! i = (fle (bins ! i) 2 \<and> fge (bins ! i) (- 2)) \<and>
          tails_mask bins ! i = (\<not> bulk_mask bins ! i)) \<and>
      get_bulk_edge_values counts bins = Inr
        (map ((!) counts) (filter (\<lambda>i. fle (bins ! i) 2 \<and> fge (bins ! i) (- 2)) [0..<length counts]),
         map ((!) bins) (filter (\<lambda>i. fle (bins ! i) 2 \<and> fge (bins ! i) (- 2)) [0..<length counts]),
         map ((!) counts) (filter (\<lambda>i. \<not> (fle (bins ! i) 2 \<and> fge (bins ! i) (- 2))) [0..<length counts]),
         map ((!) bins) (filter (\<lambda>i. \<not> (fle (bins ! i) 2 \<and> fge (bins ! i) (- 2))) [0..<length counts])))
   \<and> get_bulk_edge_values [1, 2, 3, 4 :: int] [Num (- 3), Num (- 1), Num 0, Num 1, Num 3]
       = Inr ([2, 3, 4], [Num (- 1), Num 0, Num 1], [1], [Num (- 3)])"
proof (intro conjI impI allI)
  show "get_bulk_edge_values [1, 2, 3, 4 :: int] [Num (- 3), Num (- 1), Num 0, Num 1, Num 3]
       = Inr ([2, 3, 4], [Num (- 1), Num 0, Num 1], [1], [Num (- 3)])"
    by (simp add: get_bulk_edge_values_def bool_index_def bulk_mask_def tails_mask_def)
qed (simp_all add: bulk_mask_length tails_mask_length bulk_mask_nth tails_mask_nth
      get_bulk_edge_values_aligned)

theorem get_bulk_edge_values_masks_witness:
  "length [Num (- 5 / 2), Num 2, Num 9] = Suc (length [5, 7 :: nat]) \<and>
   bulk_mask [Num (- 5 / 2), Num 2, Num 9] = [False, True] \<and>
   tails_mask [Num (- 5 / 2), Num 2, Num 9] = [True, False] \<and>
   get_bulk_edge_values [5, 7 :: nat] [Num (- 5 / 2), Num 2, Num 9]
     = Inr ([7], [Num 2], [5], [Num (- 5 / 2)])"
  using get_bulk_edge_values_masks [of "[Num (- 5 / 2), Num 2, Num 9]" "[5, 7 :: nat]"]
  by (simp add: upt_rec bulk_mask_def tails_mask_def)

text \<open>
  Claim C10. For counts of length \<open>k\<close> and bins of length \<open>k + 1\<close>, the bulk counts and
  the bulk edges have one length, the tail counts and the tail edges have one length, the
  two lengths add up to \<open>k\<close>, and there are strictly increasing index lists \<open>is\<close> and
  \<open>js\<close>, disjoint and covering \<open>0, ..., k - 1\<close>, such that the bulk arrays are the
  counts and the bins at \<open>is\<close> and the tail arrays are the counts and the bins at \<open>js\<close>.
\<close>

theorem get_bulk_edge_values_pairing:
  assumes "length bins = Suc (length counts)"
  shows "\<exists>bulk_rho bulk_lambdas tails_rho tails_lambdas is js.
     get_bulk_edge_values counts bins = Inr (bulk_rho, bulk_lambdas, tails_rho, tails_lambdas) \<and>
     length bulk_rho = length bulk_lambdas \<and>
     length tails_rho = length tails_lambdas \<and>
     length bulk_rho + length tails_rho = length counts \<and>
     sorted_wrt (<) is \<and> sorted_wrt (<) js \<and>
     set is \<union> set js = {..<length counts} \<and> set is \<inter> set js = {} \<and>
     bulk_rho = map ((!) counts) is \<and> bulk_lambdas = map ((!) bins) is \<and>
     tails_rho = map ((!) counts) js \<and> tails_lambdas = map ((!) bins) js"
proof -
  let ?k = "length counts"
  let ?P = "\<lambda>i. fle (bins ! i) 2 \<and> fge (bins ! i) (- 2)"
  let ?is = "filter ?P [0..<?k]"
  let ?js = "filter (\<lambda>i. \<not> ?P i) [0..<?k]"
  have res: "get_bulk_edge_values counts bins =
      Inr (map ((!) counts) ?is, map ((!) bins) ?is, map ((!) counts) ?js, map ((!) bins) ?js)"
    using get_bulk_edge_values_aligned [OF assms] .
  have len: "length ?is + length ?js = ?k"
    using sum_length_filter_compl [of ?P "[0..<?k]"] by simp
  have srt: "sorted_wrt (<) ?is" "sorted_wrt (<) ?js"
    by (simp_all add: sorted_wrt_filter)
  have cover: "set ?is \<union> set ?js = {..<?k}" "set ?is \<inter> set ?js = {}"
    by auto
  show ?thesis
    using res len srt cover by (intro exI [of _ "map ((!) counts) ?is"] exI [of _ "map ((!) bins) ?is"]
        exI [of _ "map ((!) counts) ?js"] exI [of _ "map ((!) bins) ?js"] exI [of _ ?is] exI [of _ ?js])
      simp
qed

theorem get_bulk_edge_values_pairing_witness:
  "length [Num (- 4), Num (- 2), Num 1, Num (5 / 2)] = Suc (length [10, 20, 30 :: int]) \<and>
   (\<exists>bulk_rho bulk_lambdas tails_rho tails_lambdas is js.
     get_bulk_edge_values [10, 20, 30 :: int] [Num (- 4), Num (- 2), Num 1, Num (5 / 2)]
       = Inr (bulk_rho, bulk_lambdas, tails_rho, tails_lambdas) \<and>
     length bulk_rho = length bulk_lambdas \<and>
     length tails_rho = length tails_lambdas \<and>
     length bulk_rho + length tails_rho = length [10, 20, 30 :: int] \<and>
     sorted_wrt (<) is \<and> sorted_wrt (<) js \<and>
     set is \<union> set js = {..<length [10, 20, 30 :: int]} \<and> set is \<inter> set js = {} \<and>
     bulk_rho = map ((!) [10, 20, 30 :: int]) is \<and>
     bulk_lambdas = map ((!) [Num (- 4), Num (- 2), Num 1, Num (5 / 2)]) is \<and>
     tails_rho = map ((!) [10, 20, 30 :: int]) js \<and>
     tails_lambdas = map ((!) [Num (- 4), Num (- 2), Num 1, Num (5 / 2)]) js)"
  using get_bulk_edge_values_pairing [of "[Num (- 4), Num (- 2), Num 1, Num (5 / 2)]" "[10, 20, 30 :: int]"]
  by simp

subsection \<open>Arrays that are not a histogram\<close>

text \<open>
  Claim C6 says that for \<open>len(bins) \<noteq> len(counts) + 1\<close> the call returns normally with
  misaligned masks. It does not: the masks have the length of \<open>bins[:-1]\<close>, and indexing
  the counts with a boolean array that is not empty and has another length raises
  IndexError.
\<close>

theorem get_bulk_edge_values_misaligned_counterexample:
  "length [Num 0, Num 1] \<noteq> Suc (length [1, 2, 3 :: int]) \<and>
   get_bulk_edge_values [1, 2, 3 :: int] [Num 0, Num 1] = Inl IndexError"
  by (simp add: get_bulk_edge_values_def bool_index_def bulk_mask_def tails_mask_def)

text \<open>
  Claim C6, amended. For \<open>len(bins) \<noteq> len(counts) + 1\<close> the call raises IndexError
  when \<open>bins\<close> has two entries or more. When \<open>bins\<close> has one entry or none, the masks
  are empty, and the call returns four empty arrays whatever the counts are.
\<close>

theorem get_bulk_edge_values_misaligned:
  assumes "length bins \<noteq> Suc (length counts)"
  shows "get_bulk_edge_values counts bins =
     (if length bins \<le> 1 then Inr ([], [], [], []) else Inl IndexError)"
proof (cases "length bins \<le> 1")
  case True
  then have "butlast bins = []" by (cases bins) simp_all
  then have "bulk_mask bins = []" and "tails_mask bins = []"
    by (simp_all add: bulk_mask_def tails_mask_def)
  then show ?thesis using True
    by (simp add: get_bulk_edge_values_def bool_index_empty_mask)
next
  case False
  then have "bulk_mask bins \<noteq> []"
    using bulk_mask_length [of bins] by (cases "bulk_mask bins") simp_all
  moreover have "length (bulk_mask bins) \<noteq> length counts"
    using assms False by (simp add: bulk_mask_length)
  ultimately show ?thesis using False
    by (simp add: get_bulk_edge_values_def bool_index_mismatch)
qed

theorem get_bulk_edge_values_misaligned_witness:
  "length [Num 0, Num 1] \<noteq> Suc (length [1, 2, 3 :: int]) \<and>
   get_bulk_edge_values [1, 2, 3 :: int] [Num 0, Num 1] = Inl IndexError \<and>
   length [Num 5] \<noteq> Suc (length [1, 2, 3 :: int]) \<and>
   get_bulk_edge_values [1, 2, 3 :: int] [Num 5] = Inr ([], [], [], []) \<and>
   length ([] :: fval list) \<noteq> Suc (length [7 :: int]) \<and>
   get_bulk_edge_values [7 :: int] [] = Inr ([], [], [], [])"
  using get_bulk_edge_values_misaligned [of "[Num 0, Num 1]" "[1, 2, 3 :: int]"]
    get_bulk_edge_values_misaligned [of "[Num 5]" "[1, 2, 3 :: int]"]
    get_bulk_edge_values_misaligned [of "[] :: fval list" "[7 :: int]"]
  by simp

section \<open>Properties of rmse\<close>

subsection \<open>Arrays of numbers of one length\<close>

lemma np_sum_Num: "np_sum (map Num xs) = Num (sum_list xs)"
  by (induction xs) simp_all

lemma np_square_sub_Num:
  "np_square (map2 fsub (map Num a) (map Num b)) = map Num (map2 (\<lambda>x y. (x - y)\<^sup>2) a b)"
  unfolding np_square_def
  by (induction a arbitrary: b) (auto simp: zip_Cons1 split: list.splits)

lemma sum_list_squares_index:
  "length a = length b \<Longrightarrow>
   sum_list (map2 (\<lambda>x y. (x - y)\<^sup>2) a b) = (\<Sum>i<length a. (a ! i - b ! i)\<^sup>2)"
  for a b :: "real list"
proof -
  assume l: "length a = length b"
  have "sum_list (map2 (\<lambda>x y. (x - y)\<^sup>2) a b)
      = (\<Sum>i = 0..<length (map2 (\<lambda>x y. (x - y)\<^sup>2) a b). map2 (\<lambda>x y. (x - y)\<^sup>2) a b ! i)"
    by (rule sum_list_sum_nth)
  also have "\<dots> = (\<Sum>i = 0..<length a. (a ! i - b ! i)\<^sup>2)"
    using l by (intro sum.cong) simp_all
  finally show ?thesis by (simp add: atLeast0LessThan)
qed

lemma rmse_Num_equal_length:
  assumes "length a = length b"
  shows "rmse (map Num a) (map Num b) =
     Inr (if a = [] then NaN
          else Num (sqrt ((\<Sum>i<length a. (a ! i - b ! i)\<^sup>2) / real (length a))))"
proof (cases "a = []")
  case True
  then show ?thesis using assms
    by (simp add: rmse_def np_subtract_def np_square_def np_mean_def)
next
  case False
  have nn: "0 \<le> (\<Sum>i<length a. (a ! i - b ! i)\<^sup>2) / real (length a)"
    by (intro divide_nonneg_nonneg sum_nonneg) simp_all
  have ne: "map2 fsub (map Num a) (map Num b) \<noteq> []"
    using False assms by (cases a; cases b) simp_all
  show ?thesis
    using False assms nn ne
    by (simp add: rmse_def np_subtract_def np_mean_def np_square_sub_Num np_sum_Num
        sum_list_squares_index del: zip_map_map zip_map1 zip_map2 map_map)
qed

text \<open>
  Claim C4. For two arrays of numbers of one length, \<open>rmse\<close> returns the square root of
  the mean of the squared differences. For two empty arrays that mean is zero divided by
  zero, and the value returned is not-a-number.
\<close>

theorem rmse_formula:
  "length a = length b \<Longrightarrow>
   rmse (map Num a) (map Num b) =
     Inr (if a = [] then NaN
          else Num (sqrt ((\<Sum>i<length a. (a ! i - b ! i)\<^sup>2) / real (length a))))"
  by (rule rmse_Num_equal_length)

theorem rmse_formula_witness:
  "length [1, 5 :: real] = length [4, 1 :: real] \<and>
   rmse [Num 1, Num 5] [Num 4, Num 1] = Inr (Num (5 / sqrt 2)) \<and>
   length ([] :: real list) = length ([] :: real list) \<and> rmse [] [] = Inr NaN"
  using rmse_formula [of "[1, 5]" "[4, 1]"] rmse_formula [of "[]" "[]"]
  by (simp add: lessThan_Suc numeral_2_eq_2 real_sqrt_divide)

subsection \<open>Arrays of different lengths\<close>

text \<open>
  Claim C5 says that \<open>rmse\<close> raises a shape error on every pair of one-dimensional arrays
  of unequal lengths. It does not when one array has length 1: the subtraction stretches
  that array to the length of the other one, and \<open>rmse\<close> returns a value.
\<close>

theorem rmse_broadcast_counterexample:
  "length [Num 1] \<noteq> length [Num 4, Num (- 2)] \<and>
   rmse [Num 1] [Num 4, Num (- 2)] = Inr (Num 3)"
  by (simp add: rmse_def np_subtract_def np_square_def np_mean_def)

text \<open>
  Claim C5, amended. For one-dimensional arrays of unequal lengths, \<open>rmse\<close> raises
  ValueError when neither array has length 1. When one of them has length 1 it is
  broadcast against the other: \<open>rmse\<close> returns the value it returns for the other array
  and the array that repeats the single entry to the length of the other.
\<close>

theorem rmse_unequal_lengths:
  "length a \<noteq> length b \<Longrightarrow>
   (if length a = 1
    then rmse a b = rmse (replicate (length b) (hd a)) b \<and> (\<exists>v. rmse a b = Inr v)
    else if length b = 1
    then rmse a b = rmse a (replicate (length a) (hd b)) \<and> (\<exists>v. rmse a b = Inr v)
    else rmse a b = Inl ValueError)"
proof -
  assume ne: "length a \<noteq> length b"
  have l: "map2 fsub (replicate (length b) (hd a)) b = map (\<lambda>y. fsub (hd a) y) b"
    by (simp add: zip_replicate1 o_def)
  have r: "map2 fsub a (replicate (length a) (hd b)) = map (\<lambda>x. fsub x (hd b)) a"
    by (simp add: zip_replicate2 o_def)
  show ?thesis
  proof (cases "length a = 1")
    case True
    then have "np_subtract a b = np_subtract (replicate (length b) (hd a)) b"
      using ne by (simp add: np_subtract_def l)
    moreover have "\<exists>d. np_subtract a b = Inr d"
      using True ne by (simp add: np_subtract_def)
    ultimately show ?thesis using True by (auto simp: rmse_def)
  next
    case False
    show ?thesis
    proof (cases "length b = 1")
      case True
      then have "np_subtract a b = np_subtract a (replicate (length a) (hd b))"
        using ne False by (simp add: np_subtract_def r)
      moreover have "\<exists>d. np_subtract a b = Inr d"
        using True ne False by (simp add: np_subtract_def)
      ultimately show ?thesis using True False by (auto simp: rmse_def)
    next
      case b: False
      then show ?thesis using False ne by (simp add: rmse_def np_subtract_def)
    qed
  qed
qed

theorem rmse_unequal_lengths_witness:
  "length [Num 1, Num 2] \<noteq> length [Num 1, Num 2, Num 3] \<and>
   rmse [Num 1, Num 2] [Num 1, Num 2, Num 3] = Inl ValueError \<and>
   length [Num 1] \<noteq> length [Num 4, Num 6] \<and>
   rmse [Num 1] [Num 4, Num 6] = rmse [Num 1, Num 1] [Num 4, Num 6] \<and>
   rmse [Num 1] [Num 4, Num 6] = Inr (Num (sqrt 17)) \<and>
   length [Num 2] \<noteq> length ([] :: fval list) \<and> rmse [Num 2] [] = rmse [] []"
  using rmse_unequal_lengths [of "[Num 1, Num 2]" "[Num 1, Num 2, Num 3]"]
    rmse_unequal_lengths [of "[Num 1]" "[Num 4, Num 6]"]
    rmse_unequal_lengths [of "[Num 2]" "[]"]
  by (simp add: rmse_def np_subtract_def np_square_def np_mean_def eval_nat_numeral)

subsection \<open>Zero error\<close>







lemma fround_id: "fround (\<lambda>x. x) v = v"
  by (cases v) simp_all

lemma np_sum_rounded_id: "np_sum_rounded (\<lambda>x. x) a = np_sum a"
  by (induction a) (simp_all add: fround_id)

lemma fround_id_fun: "fround (\<lambda>x. x) = (\<lambda>v. v)"
  by (rule ext) (simp add: fround_id)

lemma rmse_rounded_exact: "rmse_rounded (\<lambda>x. x) a b = rmse a b"
  by (simp add: rmse_rounded_def rmse_def np_mean_rounded_def np_mean_def np_sum_rounded_id
      fround_id fround_id_fun np_square_def split: sum.splits)












section \<open>Properties of wigner\<close>

subsection \<open>Bounds of pi\<close>

text \<open>
  The value of the density at 0 is \<open>1 / pi\<close>. Its decimal expansion needs bounds of \<open>pi\<close>,
  found from the sign of the sine on both sides of \<open>pi\<close> and the Maclaurin polynomial of
  the sine with its remainder.
\<close>

lemma sum_upto_16:
  "(\<Sum>m<16. f m) = f 0 + f 1 + f 2 + f 3 + f 4 + f 5 + f 6 + f 7 + f 8 + f 9 + f 10
     + f 11 + f 12 + f 13 + f 14 + f (15::nat)" for f :: "nat \<Rightarrow> real"
  by (simp add: eval_nat_numeral lessThan_Suc)

lemma sin_poly_16:
  "(\<Sum>m<16. sin_coeff m * x ^ m) =
     x - x^3 / 6 + x^5 / 120 - x^7 / 5040 + x^9 / 362880 - x^11 / 39916800
       + x^13 / 6227020800 - x^15 / 1307674368000" for x :: real
  unfolding sum_upto_16 by (simp add: sin_coeff_def fact_numeral)

lemma sin_31408_pos: "0 < sin (3.1408 :: real)"
proof -
  have b: "\<bar>sin (3.1408::real) - (\<Sum>m<16. sin_coeff m * 3.1408 ^ m)\<bar>
      \<le> inverse (fact 16) * \<bar>3.1408\<bar> ^ 16"
    by (rule Maclaurin_sin_bound)
  have "0 < (\<Sum>m<16. sin_coeff m * (3.1408::real) ^ m) - inverse (fact 16) * \<bar>3.1408\<bar> ^ 16"
    unfolding sin_poly_16 by (simp add: fact_numeral power_divide)
  with b show ?thesis by linarith
qed

lemma sin_31426_neg: "sin (3.1426 :: real) < 0"
proof -
  have b: "\<bar>sin (3.1426::real) - (\<Sum>m<16. sin_coeff m * 3.1426 ^ m)\<bar>
      \<le> inverse (fact 16) * \<bar>3.1426\<bar> ^ 16"
    by (rule Maclaurin_sin_bound)
  have "(\<Sum>m<16. sin_coeff m * (3.1426::real) ^ m) + inverse (fact 16) * \<bar>3.1426\<bar> ^ 16 < 0"
    unfolding sin_poly_16 by (simp add: fact_numeral power_divide)
  with b show ?thesis by linarith
qed

lemma pi_gt_31408: "3.1408 < pi"
proof (rule ccontr)
  assume "\<not> 3.1408 < pi"
  then have le: "pi \<le> 3.1408" by simp
  have "(3.1408 :: real) < 2 * pi" using pi_ge_two by simp
  with le have "sin (3.1408 :: real) \<le> 0" by (intro sin_le_zero)
  with sin_31408_pos show False by simp
qed

lemma pi_lt_31426: "pi < 3.1426"
proof (rule ccontr)
  assume "\<not> pi < 3.1426"
  then have le: "3.1426 \<le> pi" by simp
  then have "0 \<le> sin (3.1426 :: real)" by (intro sin_ge_zero) simp_all
  with sin_31426_neg show False by simp
qed

lemma inv_pi_approx: "\<bar>2 / (2 * pi) - 0.3183\<bar> < (0.0001 :: real)"
proof -
  have "0.3182 * pi < 1" using pi_lt_31426 by simp
  then have lo: "0.3182 < 1 / pi"
    by (simp add: pos_less_divide_eq)
  have "1 < 0.3184 * pi" using pi_gt_31408 by simp
  then have hi: "1 / pi < 0.3184"
    by (simp add: pos_divide_less_eq)
  have "2 / (2 * pi) = 1 / pi" by simp
  with lo hi show ?thesis by (simp only: abs_less_iff) simp
qed

subsection \<open>The density entry by entry\<close>

lemma wigner_length: "length (wigner l) = length l"
  by (simp add: wigner_def astype_float32_def)

lemma wigner_nth_Num:
  "i < length l \<Longrightarrow> l ! i = Num x \<Longrightarrow>
   wigner l ! i = (if 2 < \<bar>x\<bar> then NaN else Num (sqrt (4 - x\<^sup>2) / (2 * pi)))"
proof -
  assume i: "i < length l" and x: "l ! i = Num x"
  have "(4 - x\<^sup>2 < 0) = (2 < \<bar>x\<bar>)"
    using abs_le_square_iff [of x 2] by auto
  then show ?thesis using i x
    by (simp add: wigner_def astype_float32_def)
qed

lemma wigner_in_domain:
  "\<forall>x\<in>set l. - 2 \<le> x \<and> x \<le> 2 \<Longrightarrow>
   wigner (map Num l) = map (\<lambda>x. Num (sqrt (4 - x\<^sup>2) / (2 * pi))) l"
proof (rule nth_equalityI)
  show "length (wigner (map Num l)) = length (map (\<lambda>x. Num (sqrt (4 - x\<^sup>2) / (2 * pi))) l)"
    by (simp add: wigner_length)
next
  fix i assume dom: "\<forall>x\<in>set l. - 2 \<le> x \<and> x \<le> 2" and "i < length (wigner (map Num l))"
  then have i: "i < length l" by (simp add: wigner_length)
  then have "- 2 \<le> l ! i \<and> l ! i \<le> 2" using dom by simp
  then have "\<not> 2 < \<bar>l ! i\<bar>" by (simp add: abs_le_iff not_less)
  then show "wigner (map Num l) ! i = map (\<lambda>x. Num (sqrt (4 - x\<^sup>2) / (2 * pi))) l ! i"
    using i wigner_nth_Num [of i "map Num l" "l ! i"] by simp
qed

lemma wigner_negative: "wigner (np_negative l) = wigner l"
proof -
  have "fsquare (fneg x) = fsquare x" for x by (cases x) simp_all
  then show ?thesis by (simp add: wigner_def np_negative_def astype_float32_def)
qed

text \<open>
  Claim C8. For every array whose entries all lie in \<open>[-2, 2]\<close>, \<open>wigner\<close> returns, entry
  by entry, \<open>sqrt(4 - l\<^sup>2) / (2 pi)\<close>; it is 0 at 2 and at -2, it is \<open>2 / (2 pi)\<close> at 0,
  which is within 0.0001 of 0.3183, and \<open>wigner(-l)\<close> and \<open>wigner(l)\<close> are the same
  array for every array: at each position both hold the same number, or both hold
  not-a-number. The cast to 32-bit floats does not change a value here, where numbers are
  exact.
\<close>

theorem wigner_semicircle:
  "((\<forall>x\<in>set l. - 2 \<le> x \<and> x \<le> 2) \<longrightarrow>
      wigner (map Num l) = map (\<lambda>x. Num (sqrt (4 - x\<^sup>2) / (2 * pi))) l) \<and>
   wigner [Num 2] = [Num 0] \<and>
   wigner [Num (- 2)] = [Num 0] \<and>
   wigner [Num 0] = [Num (2 / (2 * pi))] \<and>
   \<bar>2 / (2 * pi) - 0.3183\<bar> < (0.0001 :: real) \<and>
   wigner (np_negative l') = wigner l'"
proof (intro conjI impI)
  show "\<bar>2 / (2 * pi) - 0.3183\<bar> < (0.0001 :: real)" by (rule inv_pi_approx)
  show "wigner (np_negative l') = wigner l'" by (rule wigner_negative)
  show "wigner (map Num l) = map (\<lambda>x. Num (sqrt (4 - x\<^sup>2) / (2 * pi))) l"
    if "\<forall>x\<in>set l. - 2 \<le> x \<and> x \<le> 2" using that by (rule wigner_in_domain)
qed (simp_all add: wigner_def astype_float32_def)

theorem wigner_semicircle_witness:
  "list_all (\<lambda>x :: real. - 2 \<le> x \<and> x \<le> 2) [- 2, 0, 2] \<and>
   wigner [Num (- 2), Num 0, Num 2] = [Num 0, Num (1 / pi), Num 0] \<and>
   wigner (np_negative [Num (- 2), Num 0, Num 2]) = wigner [Num (- 2), Num 0, Num 2]"
  using wigner_semicircle [of "[- 2, 0, 2]" "[Num (- 2), Num 0, Num 2]"]
  by simp

text \<open>
  Claim C9. \<open>wigner\<close> returns an array of the length of its argument whatever the
  entries are, no exception is raised; at a position that holds a number \<open>x\<close> with
  \<open>\<bar>x\<bar> > 2\<close> the result is not-a-number, and at a position that holds a number in
  \<open>[-2, 2]\<close> it is the density \<open>sqrt(4 - x\<^sup>2) / (2 pi)\<close>.
\<close>

theorem wigner_out_of_domain:
  "length (wigner l) = length l \<and>
   (i < length l \<and> l ! i = Num x \<longrightarrow>
      wigner l ! i = (if 2 < \<bar>x\<bar> then NaN else Num (sqrt (4 - x\<^sup>2) / (2 * pi))))"
  by (simp add: wigner_length wigner_nth_Num)

theorem wigner_out_of_domain_witness:
  "length (wigner [Num 3, Num 0, Num (- 5 / 2)]) = 3 \<and>
   wigner [Num 3, Num 0, Num (- 5 / 2)] ! 0 = NaN \<and>
   wigner [Num 3, Num 0, Num (- 5 / 2)] ! 1 = Num (1 / pi) \<and>
   wigner [Num 3, Num 0, Num (- 5 / 2)] ! 2 = NaN"
  using wigner_out_of_domain [of "[Num 3, Num 0, Num (- 5 / 2)]" 0 3]
    wigner_out_of_domain [of "[Num 3, Num 0, Num (- 5 / 2)]" 1 0]
    wigner_out_of_domain [of "[Num 3, Num 0, Num (- 5 / 2)]" 2 "- 5 / 2"]
  by simp

section \<open>Properties of rm_sampling\<close>

subsection \<open>The draws of the generator\<close>

lemma advance_add: "advance gauss (a + b) g = advance gauss b (advance gauss a g)"
  by (induction a arbitrary: g) simp_all

lemma deviate_Suc: "deviate gauss (snd (gauss g)) j = deviate gauss g (Suc j)"
  by (simp add: deviate_def)

lemma deviate_advance: "deviate gauss (advance gauss a g) j = deviate gauss g (a + j)"
  by (simp add: deviate_def advance_add)

lemma map_upt_Suc_shift: "map f [0..<Suc c] = f 0 # map (\<lambda>j. f (Suc j)) [0..<c]"
  by (simp add: upt_conv_Cons map_Suc_upt [symmetric] del: upt_Suc)

lemma draw_row_deviates:
  "draw_row gauss s c g = (map (\<lambda>j. s * deviate gauss g j) [0..<c], advance gauss c g)"
proof (induction c arbitrary: g)
  case 0
  then show ?case by simp
next
  case (Suc c)
  obtain z g1 where z: "gauss g = (z, g1)" by (cases "gauss g")
  have z0: "deviate gauss g 0 = z" using z by (simp add: deviate_def)
  have sh: "deviate gauss g1 j = deviate gauss g (Suc j)" for j
    using deviate_Suc [of gauss g j] z by simp
  show ?case
    unfolding map_upt_Suc_shift using z z0 by (simp add: Suc.IH sh)
qed

lemma rng_normal_deviates:
  "rng_normal gauss s r c g =
     (map (\<lambda>i. map (\<lambda>j. s * deviate gauss g (i * c + j)) [0..<c]) [0..<r], advance gauss (r * c) g)"
proof (induction r arbitrary: g)
  case 0
  then show ?case by simp
next
  case (Suc r)
  have sh: "deviate gauss (advance gauss c g) (i * c + j) = deviate gauss g (Suc i * c + j)" for i j
    by (simp add: deviate_advance add.assoc)
  have adv: "advance gauss (r * c) (advance gauss c g) = advance gauss (Suc r * c) g"
    by (simp add: advance_add [symmetric])
  show ?case
    unfolding map_upt_Suc_shift
    by (simp add: draw_row_deviates Suc.IH sh adv del: mult_Suc)
qed

lemma rng_normal_gaussian_matrix:
  "rng_normal gauss s N N g = (gaussian_matrix_spec gauss s N g, advance gauss (N * N) g)"
  by (simp add: rng_normal_deviates gaussian_matrix_spec_def)

lemma symmetrise_entries:
  assumes len: "length X = N" and rows: "\<forall>r\<in>set X. length r = N"
  shows "symmetrise X = symmetrised_spec N X"
proof -
  have tr: "transpose X = map (\<lambda>i. map (\<lambda>j. X ! j ! i) [0..<length X]) [0..<N]"
    using len rows by (intro transpose_rectangle) auto
  show ?thesis
  proof (rule nth_equalityI)
    show "length (symmetrise X) = length (symmetrised_spec N X)"
      by (simp add: symmetrise_def symmetrised_spec_def tr len)
  next
    fix i assume "i < length (symmetrise X)"
    then have i: "i < N" by (simp add: symmetrise_def tr len)
    have li: "length (X ! i) = N" using rows len i by simp
    have "symmetrise X ! i = map2 (\<lambda>a b. (a + b) / sqrt 2) (X ! i) (map (\<lambda>j. X ! j ! i) [0..<N])"
      using i len by (simp add: symmetrise_def tr)
    also have "\<dots> = map (\<lambda>j. (X ! i ! j + X ! j ! i) / sqrt 2) [0..<N]"
      using li by (intro nth_equalityI) simp_all
    finally show "symmetrise X ! i = symmetrised_spec N X ! i"
      using i by (simp add: symmetrised_spec_def)
  qed
qed

lemma gaussian_matrix_shape:
  "length (gaussian_matrix_spec gauss s N g) = N \<and> (\<forall>r\<in>set (gaussian_matrix_spec gauss s N g). length r = N)"
  by (auto simp: gaussian_matrix_spec_def)

lemma sampling_loop_blocks:
  "sampling_loop gauss eigvalsh k N sigma g acc =
     (acc @ map (\<lambda>i. astype_float32 (eigvalsh (symmetrised_spec N
                (gaussian_matrix_spec gauss sigma N (advance gauss (i * (N * N)) g))))) [0..<k],
      advance gauss (k * (N * N)) g)"
proof (induction k arbitrary: g acc)
  case 0
  then show ?case by simp
next
  case (Suc k)
  let ?B = "\<lambda>g. astype_float32 (eigvalsh (symmetrised_spec N (gaussian_matrix_spec gauss sigma N g)))"
  have sym: "symmetrise (gaussian_matrix_spec gauss sigma N g) = symmetrised_spec N (gaussian_matrix_spec gauss sigma N g)"
    using gaussian_matrix_shape [of gauss sigma N g] by (intro symmetrise_entries) simp_all
  have sh: "advance gauss (i * (N * N)) (advance gauss (N * N) g) = advance gauss (Suc i * (N * N)) g" for i
    by (simp add: advance_add [symmetric])
  have "sampling_loop gauss eigvalsh (Suc k) N sigma g acc =
      sampling_loop gauss eigvalsh k N sigma (advance gauss (N * N) g) (acc @ [?B g])"
    by (simp add: rng_normal_gaussian_matrix sym)
  also have "\<dots> = ((acc @ [?B g]) @ map (\<lambda>i. ?B (advance gauss (Suc i * (N * N)) g)) [0..<k],
      advance gauss (Suc k * (N * N)) g)"
    by (simp only: Suc.IH sh)
  also have "(acc @ [?B g]) @ map (\<lambda>i. ?B (advance gauss (Suc i * (N * N)) g)) [0..<k]
      = acc @ map (\<lambda>i. ?B (advance gauss (i * (N * N)) g)) [0..<Suc k]"
    unfolding map_upt_Suc_shift [of "\<lambda>i. ?B (advance gauss (i * (N * N)) g)"] by simp
  finally show ?case .
qed


lemma sampling_loop_shape:
  assumes contract: "\<And>M. length M = N \<Longrightarrow> \<forall>r\<in>set M. length r = N \<Longrightarrow> length (eigvalsh M) = N"
  shows "(\<forall>r\<in>set acc. length r = N) \<Longrightarrow>
     length (fst (sampling_loop gauss eigvalsh k N sigma g acc)) = length acc + k \<and>
     (\<forall>r\<in>set (fst (sampling_loop gauss eigvalsh k N sigma g acc)). length r = N)"
proof -
  assume acc: "\<forall>r\<in>set acc. length r = N"
  have "length (symmetrised_spec N X) = N \<and> (\<forall>r\<in>set (symmetrised_spec N X). length r = N)" for X
    by (auto simp: symmetrised_spec_def)
  then have "length (astype_float32 (eigvalsh (symmetrised_spec N X))) = N" for X
    using contract by (simp add: astype_float32_def)
  then show ?thesis using acc
    by (auto simp: sampling_loop_blocks)
qed

lemma np_array_flatten_rect:
  assumes "\<forall>r\<in>set rows. length r = N"
  shows "np_array_flatten rows = Inr (concat rows) \<and> length (concat rows) = length rows * N"
proof -
  have "list_all (\<lambda>r. length r = length (hd rows)) rows"
    using assms by (cases rows) (simp_all add: list_all_iff)
  moreover have "length (concat rows) = length rows * N"
    using assms by (induction rows) simp_all
  ultimately show ?thesis by (simp add: np_array_flatten_def)
qed

subsection \<open>The sample\<close>

text \<open>
  Claim C1. For \<open>n_samples > 0\<close>, \<open>N > 0\<close> and every state of the generator,
  \<open>rm_sampling\<close> returns the concatenation, over the \<open>n_samples\<close> iterations in order, of
  the cast eigenvalues of \<open>Xs = (X + X\<^sup>T) / sqrt(2)\<close>, where \<open>X\<close> has \<open>N\<close> rows and
  \<open>N\<close> columns and its entries are \<open>N ** (-0.5)\<close> times successive deviates of the supplied
  generator, none used twice; the generator is left advanced by \<open>n_samples * N * N\<close>
  draws. The eigenvalues are what \<open>eigvalsh\<close> returns, \<open>N\<close> of them for such a matrix.
\<close>

theorem rm_sampling_concatenation:
  assumes "0 < n_samples" and "0 < N"
    and contract: "\<And>M. length M = nat N \<Longrightarrow> \<forall>r\<in>set M. length r = nat N \<Longrightarrow>
                     length (eigvalsh M) = nat N"
  shows "rm_sampling gauss eigvalsh n_samples N g =
     Inr (rm_sampling_spec gauss eigvalsh (nat n_samples) (nat N) g,
          advance gauss (nat n_samples * (nat N * nat N)) g)"
proof -
  let ?sigma = "real_of_int N powr (- (1 / 2))"
  let ?blocks = "map (\<lambda>k. astype_float32 (eigvalsh (symmetrised_spec (nat N)
      (gaussian_matrix_spec gauss ?sigma (nat N) (advance gauss (k * (nat N * nat N)) g)))))
      [0..<nat n_samples]"
  have loop: "sampling_loop gauss eigvalsh (nat n_samples) (nat N) ?sigma g [] =
      (?blocks, advance gauss (nat n_samples * (nat N * nat N)) g)"
    by (simp add: sampling_loop_blocks)
  have "\<forall>r\<in>set ?blocks. length r = nat N"
    using sampling_loop_shape [of "nat N" eigvalsh "[]" gauss "nat n_samples" ?sigma g] contract
    by (simp add: loop)
  then have flat: "np_array_flatten ?blocks = Inr (concat ?blocks)"
    using np_array_flatten_rect by blast
  have sig: "real (nat N) = real_of_int N" using assms(2) by simp
  have "concat ?blocks = rm_sampling_spec gauss eigvalsh (nat n_samples) (nat N) g"
    by (simp add: rm_sampling_spec_def sig)
  then show ?thesis
    using assms(1,2) loop flat by (simp add: rm_sampling_def)
qed

theorem rm_sampling_concatenation_witness:
  "(0 :: int) < 3 \<and> (0 :: int) < 1 \<and>
   rm_sampling (\<lambda>g :: nat. (real g, Suc g)) (map hd) 3 1 1 =
     Inr ([2 / sqrt 2, 4 / sqrt 2, 6 / sqrt 2], 4)"
  using rm_sampling_concatenation [of 3 1 "map hd" "\<lambda>g :: nat. (real g, Suc g)" 1]
  by (simp add: rm_sampling_spec_def gaussian_matrix_spec_def symmetrised_spec_def astype_float32_def
      deviate_def eval_nat_numeral)

text \<open>
  Claim C2. For \<open>n_samples > 0\<close> and \<open>N > 0\<close>, \<open>rm_sampling\<close> returns normally a flat
  array of exactly \<open>n_samples * N\<close> values, whatever the generator is, provided that
  \<open>eigvalsh\<close> returns \<open>N\<close> eigenvalues for a matrix of \<open>N\<close> rows and \<open>N\<close> columns. In
  particular there are 2 values for \<open>n_samples = 1\<close>, \<open>N = 2\<close> and 15 values for
  \<open>n_samples = 5\<close>, \<open>N = 3\<close>, shown below for the generator whose deviates are all 0,
  where every eigenvalue is 0.
\<close>

theorem rm_sampling_length:
  assumes "0 < n_samples" and "0 < N"
    and contract: "\<And>M. length M = nat N \<Longrightarrow> \<forall>r\<in>set M. length r = nat N \<Longrightarrow>
                     length (eigvalsh M) = nat N"
  shows "\<exists>out g'. rm_sampling gauss eigvalsh n_samples N g = Inr (out, g') \<and>
                  int (length out) = n_samples * N"
proof -
  let ?sigma = "real_of_int N powr (- (1 / 2))"
  obtain lambdas g1 where
    l: "sampling_loop gauss eigvalsh (nat n_samples) (nat N) ?sigma g [] = (lambdas, g1)"
    by (cases "sampling_loop gauss eigvalsh (nat n_samples) (nat N) ?sigma g []")
  have "length lambdas = nat n_samples \<and> (\<forall>r\<in>set lambdas. length r = nat N)"
    using sampling_loop_shape [of "nat N" eigvalsh "[]" gauss "nat n_samples" ?sigma g] contract l
    by simp
  then have len: "length lambdas = nat n_samples" and rows: "\<forall>r\<in>set lambdas. length r = nat N"
    by simp_all
  have f: "np_array_flatten lambdas = Inr (concat lambdas)"
    and c: "length (concat lambdas) = length lambdas * nat N"
    using np_array_flatten_rect [OF rows] by simp_all
  have "int (length (concat lambdas)) = n_samples * N"
    using c len assms(1,2) by simp
  moreover have "rm_sampling gauss eigvalsh n_samples N g = Inr (concat lambdas, g1)"
    using assms(1,2) l f by (simp add: rm_sampling_def)
  ultimately show ?thesis by blast
qed

theorem rm_sampling_length_witness:
  "(0 :: int) < 1 \<and> (0 :: int) < 2 \<and>
   (\<exists>out g'. rm_sampling (\<lambda>g :: nat. (0, Suc g)) (\<lambda>M. replicate (length M) 0) 1 2 0 = Inr (out, g') \<and>
              int (length out) = 2) \<and>
   (0 :: int) < 5 \<and> (0 :: int) < 3 \<and>
   (\<exists>out g'. rm_sampling (\<lambda>g :: nat. (0, Suc g)) (\<lambda>M. replicate (length M) 0) 5 3 0 = Inr (out, g') \<and>
              int (length out) = 15)"
  using rm_sampling_length [of 1 2 "\<lambda>M. replicate (length M) 0" "\<lambda>g :: nat. (0, Suc g)" 0]
    rm_sampling_length [of 5 3 "\<lambda>M. replicate (length M) 0" "\<lambda>g :: nat. (0, Suc g)" 0]
  by simp

end
